theory Spec2Isabelle
  imports Main "HOL-Library.Sublist"
begin

section \<open>The text tokenizer of the TTS toolkit\<close>

text \<open>
  A shallow embedding of \<^verbatim>\<open>src/TTS/tts/utils/text/tokenizer.py\<close> (class
  \<^verbatim>\<open>TTSTokenizer\<close>) and of \<^verbatim>\<open>KO_KR_Phonemizer.is_available\<close>.
  A Python \<^verbatim>\<open>str\<close> is a \<^typ>\<open>string\<close>; nothing below depends on how many
  characters the alphabet has. A vocabulary symbol is a string of any length.
  Exceptions are values: every function that can raise returns \<open>error + 'a\<close>.
  A method that assigns to \<^verbatim>\<open>self\<close> returns the updated object next to its result.
\<close>

type_synonym symbol = string

datatype error =
    UnknownSymbolError   \<comment> \<open>\<^verbatim>\<open>char_to_id\<close> on a symbol that is not in the vocabulary\<close>
  | OutOfRangeError      \<comment> \<open>\<^verbatim>\<open>id_to_char\<close> on an id that is no position of the vocabulary\<close>
  | AttributeError       \<comment> \<open>\<^verbatim>\<open>self.phonemizer.phonemize\<close> with \<^verbatim>\<open>self.phonemizer = None\<close>\<close>
  | ValueError           \<comment> \<open>an extended slice assigned a sequence of another size\<close>

subsection \<open>The character set\<close>

text \<open>
  Modelled from the spec: the class behind \<^verbatim>\<open>self.characters\<close>
  (\<^verbatim>\<open>TTS.tts.utils.text.characters\<close>) is not among the sources. The spec's
  data model gives it an ordered vocabulary and the reserved symbols, each of them
  either a member of the vocabulary or absent from it; a symbol's id is its position.
\<close>

record base_characters =
  vocab :: "symbol list"
  pad :: symbol
  blank :: symbol
  bos :: symbol
  eos :: symbol

fun position :: "symbol \<Rightarrow> symbol list \<Rightarrow> nat option" where
  "position s [] = None"
| "position s (v # vs) =
     (if s = v then Some 0 else map_option Suc (position s vs))"

text \<open>
  Modelled from the spec: \<^verbatim>\<open>char_to_id(symbol)\<close> fails with
  \<^verbatim>\<open>UnknownSymbolError\<close> if the symbol is absent from the vocabulary.
\<close>

definition char_to_id :: "base_characters \<Rightarrow> symbol \<Rightarrow> error + int" where
  "char_to_id cs s =
     (case position s (vocab cs) of
        None \<Rightarrow> Inl UnknownSymbolError
      | Some i \<Rightarrow> Inr (int i))"

text \<open>
  Modelled from the spec: \<^verbatim>\<open>id_to_char(id)\<close> fails with
  \<^verbatim>\<open>OutOfRangeError\<close> if the id is negative or at least the vocabulary's size.
\<close>

definition id_to_char :: "base_characters \<Rightarrow> int \<Rightarrow> error + symbol" where
  "id_to_char cs i =
     (if i < 0 \<or> int (length (vocab cs)) \<le> i then Inl OutOfRangeError
      else Inr (vocab cs ! nat i))"

subsection \<open>The regular expression of the vocabulary\<close>

text \<open>
  \<^verbatim>\<open>pattern = "|".join([re.escape(x) for x in characters.vocab])\<close>: an
  alternation of literals, one per vocabulary symbol, in the vocabulary's order. The
  model keeps the list of alternatives. Joining no symbol at all gives the empty
  pattern, which is the single empty alternative.
\<close>

definition join_escaped :: "symbol list \<Rightarrow> symbol list" where
  "join_escaped vs = (if vs = [] then [[]] else vs)"

text \<open>
  One match attempt of Python's \<^verbatim>\<open>re\<close> at the start of \<open>text\<close>: the
  alternatives are tried from left to right and the first one that matches wins (not
  the longest). After an empty match the engine retries at the same position and
  accepts no empty match there (\<open>must_advance\<close>, Python 3.7 and later). An empty
  alternative only arises from an empty symbol or an empty vocabulary.
\<close>

fun re_match :: "symbol list \<Rightarrow> bool \<Rightarrow> string \<Rightarrow> symbol option" where
  "re_match [] must_advance text = None"
| "re_match (v # vs) must_advance text =
     (if prefix v text \<and> \<not> (must_advance \<and> v = []) then Some v
      else re_match vs must_advance text)"

lemma re_match_Some:
  "re_match vs adv text = Some v \<Longrightarrow>
     v \<in> set vs \<and> prefix v text \<and> \<not> (adv \<and> v = [])"
  by (induction vs) (auto split: if_splits)

lemma re_match_shorter:
  assumes "re_match vs adv text = Some v" and "v \<noteq> []"
  shows "length (drop (length v) text) < length text"
proof -
  from assms(1) have "prefix v text" by (simp add: re_match_Some)
  then obtain rest where "text = v @ rest" by (auto elim: prefixE)
  with assms(2) show ?thesis by simp
qed

text \<open>
  \<^verbatim>\<open>re.findall\<close>: the matches from left to right. Where nothing matches, the
  search moves one character on.
\<close>

function re_findall :: "symbol list \<Rightarrow> bool \<Rightarrow> string \<Rightarrow> symbol list" where
  "re_findall vs must_advance text =
     (case re_match vs must_advance text of
        Some v \<Rightarrow> v # re_findall vs (v = []) (drop (length v) text)
      | None \<Rightarrow>
          (case text of
             [] \<Rightarrow> []
           | c # rest \<Rightarrow> re_findall vs False rest))"
  by pat_completeness auto
termination
proof (relation "measure (\<lambda>(vs, adv, text). 2 * length text + (if adv then 0 else 1))")
  show "wf (measure (\<lambda>(vs, adv, text). 2 * length text + (if adv then 0 else 1)))"
    by simp
next
  fix vs :: "symbol list" and must_advance :: bool and s v :: string
  assume m: "re_match vs must_advance s = Some v"
  show "((vs, v = [], drop (length v) s), (vs, must_advance, s))
          \<in> measure (\<lambda>(vs, adv, text). 2 * length text + (if adv then 0 else 1))"
  proof (cases "v = []")
    case True
    with m have "\<not> must_advance" by (auto dest: re_match_Some)
    with True show ?thesis by simp
  next
    case False
    with m have "length (drop (length v) s) < length s"
      by (rule re_match_shorter)
    with False show ?thesis by (simp split: if_splits)
  qed
next
  fix vs :: "symbol list" and must_advance :: bool and s rest :: string and c :: char
  assume "s = c # rest"
  then show "((vs, False, rest), (vs, must_advance, s))
          \<in> measure (\<lambda>(vs, adv, text). 2 * length text + (if adv then 0 else 1))"
    by simp
qed

text \<open>
  \<^verbatim>\<open>re.split\<close>: the segments between the same matches, the one before the
  first match and the one after the last included, empty or not. \<open>gap\<close> is the
  segment read so far.
\<close>

function re_split :: "symbol list \<Rightarrow> bool \<Rightarrow> string \<Rightarrow> string \<Rightarrow> string list" where
  "re_split vs must_advance gap text =
     (case re_match vs must_advance text of
        Some v \<Rightarrow> gap # re_split vs (v = []) [] (drop (length v) text)
      | None \<Rightarrow>
          (case text of
             [] \<Rightarrow> [gap]
           | c # rest \<Rightarrow> re_split vs False (gap @ [c]) rest))"
  by pat_completeness auto
termination
proof (relation "measure (\<lambda>(vs, adv, gap, text). 2 * length text + (if adv then 0 else 1))")
  show "wf (measure (\<lambda>(vs, adv, gap, text). 2 * length text + (if adv then 0 else 1)))"
    by simp
next
  fix vs :: "symbol list" and must_advance :: bool and gap s v :: string
  assume m: "re_match vs must_advance s = Some v"
  show "((vs, v = [], [], drop (length v) s), (vs, must_advance, gap, s))
          \<in> measure (\<lambda>(vs, adv, gap, text). 2 * length text + (if adv then 0 else 1))"
  proof (cases "v = []")
    case True
    with m have "\<not> must_advance" by (auto dest: re_match_Some)
    with True show ?thesis by simp
  next
    case False
    with m have "length (drop (length v) s) < length s"
      by (rule re_match_shorter)
    with False show ?thesis by (simp split: if_splits)
  qed
next
  fix vs :: "symbol list" and must_advance :: bool and gap s rest :: string and c :: char
  assume "s = c # rest"
  then show "((vs, False, gap @ [c], rest), (vs, must_advance, gap, s))
          \<in> measure (\<lambda>(vs, adv, gap, text). 2 * length text + (if adv then 0 else 1))"
    by simp
qed

text \<open>
  \<^verbatim>\<open>nltk.tokenize.RegexpTokenizer(pattern, gaps)\<close>, with
  \<^verbatim>\<open>discard_empty=True\<close> as the library's default. \<^verbatim>\<open>tokenize\<close> is
  \<^verbatim>\<open>findall\<close> when the pattern matches tokens, and the non-empty segments of
  \<^verbatim>\<open>split\<close> when it matches gaps.
\<close>

record regexp_tokenizer =
  pattern :: "symbol list"
  gaps :: bool

definition RegexpTokenizer :: "symbol list \<Rightarrow> bool \<Rightarrow> regexp_tokenizer" where
  "RegexpTokenizer alternatives g = \<lparr>pattern = alternatives, gaps = g\<rparr>"

definition tokenize :: "regexp_tokenizer \<Rightarrow> string \<Rightarrow> symbol list" where
  "tokenize rt text =
     (if gaps rt then filter (\<lambda>tok. tok \<noteq> []) (re_split (pattern rt) False [] text)
      else re_findall (pattern rt) False text)"

declare re_findall.simps [simp del] re_split.simps [simp del]

subsection \<open>Phonemizer backends\<close>

text \<open>
  A backend is an object with methods; the tokenizer calls
  \<^verbatim>\<open>phonemize(text, separator)\<close> only. \<^verbatim>\<open>is_available\<close> takes no argument
  but may depend on what is installed on the machine, so the model passes it the state
  of the external resources.
\<close>

datatype external_resources = Resources_present | Resources_missing

record phonemizer =
  language :: string
  punctuations :: string
  keep_puncs :: bool
  phonemize :: "string \<Rightarrow> string \<Rightarrow> string"
  is_available :: "external_resources \<Rightarrow> error + bool"

text \<open>
  \<^verbatim>\<open>KO_KR_Phonemizer\<close>: \<^verbatim>\<open>phonemize\<close> hands over to
  \<^verbatim>\<open>korean_text_to_phonemes\<close>, which is not among the sources and is a
  parameter here, as are the constructor's arguments; \<^verbatim>\<open>is_available\<close> is
  \<^verbatim>\<open>return True\<close>.
\<close>

definition KO_KR_Phonemizer_is_available :: "external_resources \<Rightarrow> error + bool" where
  "KO_KR_Phonemizer_is_available resources = Inr True"

definition KO_KR_Phonemizer ::
  "(string \<Rightarrow> string \<Rightarrow> string) \<Rightarrow> string \<Rightarrow> bool \<Rightarrow> phonemizer" where
  "KO_KR_Phonemizer korean_text_to_phonemes puncs keep =
     \<lparr>language = ''ko-kr'', punctuations = puncs, keep_puncs = keep,
      phonemize = korean_text_to_phonemes,
      is_available = KO_KR_Phonemizer_is_available\<rparr>"

subsection \<open>The tokenizer object\<close>

record tts_tokenizer =
  text_cleaner :: "(string \<Rightarrow> string) option"
  use_phonemes :: bool
  add_blank :: bool
  use_eos_bos :: bool
  characters :: base_characters
  pad_id :: int
  blank_id :: int
  not_found_characters :: "symbol list"
  phonemizer :: "phonemizer option"
  tokenizer :: regexp_tokenizer
  not_found_tokenizer :: regexp_tokenizer

text \<open>
  The setter of \<^verbatim>\<open>characters\<close> (lines 63 to 70): it looks up the ids of
  \<^verbatim>\<open>pad\<close> and \<^verbatim>\<open>blank\<close>, which raises if one of them is not in the
  vocabulary, and builds the two regular-expression tokenizers.
\<close>

definition set_characters :: "tts_tokenizer \<Rightarrow> base_characters \<Rightarrow> error + tts_tokenizer" where
  "set_characters self new_characters =
     (case char_to_id new_characters (pad new_characters) of
        Inl e \<Rightarrow> Inl e
      | Inr p \<Rightarrow>
          (case char_to_id new_characters (blank new_characters) of
             Inl e \<Rightarrow> Inl e
           | Inr b \<Rightarrow>
               Inr (self\<lparr>characters := new_characters, pad_id := p, blank_id := b,
                  tokenizer := RegexpTokenizer (join_escaped (vocab new_characters)) False,
                  not_found_tokenizer :=
                    RegexpTokenizer (join_escaped (vocab new_characters)) True\<rparr>)))"

text \<open>
  \<^verbatim>\<open>__init__\<close> (lines 39 to 57). The assignment to
  \<^verbatim>\<open>self.characters\<close> runs the setter; the two tokenizers are then built once
  more from the same vocabulary.
\<close>

definition TTSTokenizer ::
  "bool \<Rightarrow> (string \<Rightarrow> string) option \<Rightarrow> base_characters \<Rightarrow> phonemizer option
     \<Rightarrow> bool \<Rightarrow> bool \<Rightarrow> error + tts_tokenizer" where
  "TTSTokenizer use_ph cleaner chars phon blank_flag eos_bos_flag =
     (case set_characters
             \<lparr>text_cleaner = cleaner, use_phonemes = use_ph, add_blank = blank_flag,
              use_eos_bos = eos_bos_flag, characters = chars, pad_id = 0, blank_id = 0,
              not_found_characters = [], phonemizer = None,
              tokenizer = RegexpTokenizer [] False,
              not_found_tokenizer = RegexpTokenizer [] True\<rparr> chars of
        Inl e \<Rightarrow> Inl e
      | Inr self \<Rightarrow>
          Inr (self\<lparr>not_found_characters := [], phonemizer := phon,
             tokenizer := RegexpTokenizer (join_escaped (vocab chars)) False,
             not_found_tokenizer := RegexpTokenizer (join_escaped (vocab chars)) True\<rparr>))"

text \<open>
  \<^verbatim>\<open>log_not_found_characters\<close> (lines 72 to 76). The \<^verbatim>\<open>print\<close> writes to
  the console and changes no state.
\<close>

definition log_not_found_characters :: "tts_tokenizer \<Rightarrow> symbol list \<Rightarrow> tts_tokenizer" where
  "log_not_found_characters self nfs =
     fold (\<lambda>char s.
             if char \<in> set (not_found_characters s) then s
             else s\<lparr>not_found_characters := not_found_characters s @ [char]\<rparr>)
          nfs self"

text \<open>
  The argument of \<^verbatim>\<open>encode\<close> and of the two sequence helpers is a
  \<^verbatim>\<open>str\<close> or a \<^verbatim>\<open>list\<close>. Iterating a \<^verbatim>\<open>str\<close> yields its
  characters, each a string of length one.
\<close>

datatype text_arg = Str string | Lst "symbol list"

fun py_list :: "text_arg \<Rightarrow> symbol list" where
  "py_list (Str s) = map (\<lambda>c. [c]) s"
| "py_list (Lst xs) = xs"

fun py_len :: "text_arg \<Rightarrow> nat" where
  "py_len (Str s) = length s"
| "py_len (Lst xs) = length xs"

text \<open>
  The comprehension \<^verbatim>\<open>[self.characters.char_to_id(char) for char in ...]\<close>:
  the first symbol that raises ends it.
\<close>

fun char_to_ids :: "base_characters \<Rightarrow> symbol list \<Rightarrow> error + int list" where
  "char_to_ids cs [] = Inr []"
| "char_to_ids cs (c # rest) =
     (case char_to_id cs c of
        Inl e \<Rightarrow> Inl e
      | Inr i \<Rightarrow>
          (case char_to_ids cs rest of
             Inl e \<Rightarrow> Inl e
           | Inr ids \<Rightarrow> Inr (i # ids)))"

text \<open>\<^verbatim>\<open>encode\<close> (lines 78 to 87).\<close>

definition encode :: "tts_tokenizer \<Rightarrow> text_arg \<Rightarrow> (error + int list) \<times> tts_tokenizer" where
  "encode self text =
     (case text of
        Str s \<Rightarrow>
          (let tokenized_text = tokenize (tokenizer self) s;
               not_found = tokenize (not_found_tokenizer self) s;
               self' = log_not_found_characters self not_found
           in (char_to_ids (characters self') tokenized_text, self'))
      | Lst xs \<Rightarrow> (char_to_ids (characters self) xs, self))"

text \<open>\<^verbatim>\<open>decode\<close> (lines 89 to 94) and \<^verbatim>\<open>ids_to_text\<close> (lines 123 to 125).\<close>

fun decode_from :: "base_characters \<Rightarrow> string \<Rightarrow> int list \<Rightarrow> error + string" where
  "decode_from cs text [] = Inr text"
| "decode_from cs text (token_id # rest) =
     (case id_to_char cs token_id of
        Inl e \<Rightarrow> Inl e
      | Inr c \<Rightarrow> decode_from cs (text @ c) rest)"

definition decode :: "tts_tokenizer \<Rightarrow> int list \<Rightarrow> error + string" where
  "decode self token_ids = decode_from (characters self) [] token_ids"

definition ids_to_text :: "tts_tokenizer \<Rightarrow> int list \<Rightarrow> error + string" where
  "ids_to_text self id_sequence = decode self id_sequence"

text \<open>\<^verbatim>\<open>pad_with_bos_eos\<close> (lines 127 to 129).\<close>

definition pad_with_bos_eos :: "tts_tokenizer \<Rightarrow> text_arg \<Rightarrow> symbol list" where
  "pad_with_bos_eos self char_sequence =
     [bos (characters self)] @ py_list char_sequence @ [eos (characters self)]"

text \<open>
  \<^verbatim>\<open>result[1::2] = char_sequence\<close>: the values go to the indices 1, 3, 5, ...
  of \<open>result\<close>; Python raises \<^verbatim>\<open>ValueError\<close> unless there are as many values
  as such indices.
\<close>

fun assign_every_other :: "'a list \<Rightarrow> nat \<Rightarrow> 'a list \<Rightarrow> 'a list" where
  "assign_every_other result i [] = result"
| "assign_every_other result i (v # vs) = assign_every_other (result[i := v]) (i + 2) vs"

definition set_slice_1_2 :: "'a list \<Rightarrow> 'a list \<Rightarrow> error + 'a list" where
  "set_slice_1_2 result vs =
     (if length vs = length result div 2 then Inr (assign_every_other result 1 vs)
      else Inl ValueError)"

text \<open>\<^verbatim>\<open>intersperse_blank_char\<close> (lines 131 to 135).\<close>

definition intersperse_blank_char ::
  "tts_tokenizer \<Rightarrow> text_arg \<Rightarrow> bool \<Rightarrow> error + symbol list" where
  "intersperse_blank_char self char_sequence use_blank_char =
     (let char_to_use =
            (if use_blank_char then blank (characters self) else pad (characters self));
          result = replicate (py_len char_sequence * 2 + 1) char_to_use
      in set_slice_1_2 result (py_list char_sequence))"

text \<open>
  \<^verbatim>\<open>text_to_ids\<close> (lines 96 to 121). The \<^verbatim>\<open>language\<close> argument is not
  read. A step that raises ends the call with the object as it is.
\<close>

definition text_to_ids ::
  "tts_tokenizer \<Rightarrow> string \<Rightarrow> string option \<Rightarrow> (error + int list) \<times> tts_tokenizer" where
  "text_to_ids self text lang =
     (let text1 = (case text_cleaner self of None \<Rightarrow> text | Some clean \<Rightarrow> clean text)
      in case (if use_phonemes self
               then (case phonemizer self of
                       None \<Rightarrow> Inl AttributeError
                     | Some p \<Rightarrow> Inr (phonemize p text1 []))
               else Inr text1) of
           Inl e \<Rightarrow> (Inl e, self)
         | Inr text2 \<Rightarrow>
             (case (if add_blank self
                    then (case intersperse_blank_char self (Str text2) True of
                            Inl e \<Rightarrow> Inl e
                          | Inr xs \<Rightarrow> Inr (Lst xs))
                    else Inr (Str text2)) of
                Inl e \<Rightarrow> (Inl e, self)
              | Inr text3 \<Rightarrow>
                  encode self
                    (if use_eos_bos self then Lst (pad_with_bos_eos self text3)
                     else text3)))"

subsection \<open>The pipeline in the spec's words\<close>

text \<open>
  The spec lists the states of \<^verbatim>\<open>text_to_ids\<close> in a fixed order, each optional
  except the last: clean, phonemize, intersperse blank, pad BOS/EOS, encode. The
  definitions below follow that list, one function per state, and chain them once each
  in that order; they are compared with \<^const>\<open>text_to_ids\<close> further down.
\<close>

definition clean_stage :: "tts_tokenizer \<Rightarrow> string \<Rightarrow> string" where
  "clean_stage self text =
     (case text_cleaner self of None \<Rightarrow> text | Some clean \<Rightarrow> clean text)"

definition phonemize_stage :: "tts_tokenizer \<Rightarrow> string \<Rightarrow> error + string" where
  "phonemize_stage self text =
     (if use_phonemes self
      then (case phonemizer self of
              None \<Rightarrow> Inl AttributeError
            | Some p \<Rightarrow> Inr (phonemize p text []))
      else Inr text)"

definition blank_stage :: "tts_tokenizer \<Rightarrow> string \<Rightarrow> error + text_arg" where
  "blank_stage self text =
     (if add_blank self
      then (case intersperse_blank_char self (Str text) True of
              Inl e \<Rightarrow> Inl e
            | Inr xs \<Rightarrow> Inr (Lst xs))
      else Inr (Str text))"

definition bos_eos_stage :: "tts_tokenizer \<Rightarrow> text_arg \<Rightarrow> text_arg" where
  "bos_eos_stage self text =
     (if use_eos_bos self then Lst (pad_with_bos_eos self text) else text)"

definition text_to_ids_pipeline ::
  "tts_tokenizer \<Rightarrow> string \<Rightarrow> string option \<Rightarrow> (error + int list) \<times> tts_tokenizer" where
  "text_to_ids_pipeline self text lang =
     (case phonemize_stage self (clean_stage self text) of
        Inl e \<Rightarrow> (Inl e, self)
      | Inr phonemes \<Rightarrow>
          (case blank_stage self phonemes of
             Inl e \<Rightarrow> (Inl e, self)
           | Inr spaced \<Rightarrow> encode self (bos_eos_stage self spaced)))"

subsection \<open>Objects as the class builds them\<close>

text \<open>
  What \<^const>\<open>TTSTokenizer\<close> and \<^const>\<open>set_characters\<close> establish and no method
  changes: \<^verbatim>\<open>pad\<close> and \<^verbatim>\<open>blank\<close> have their ids, and the two tokenizers
  come from the vocabulary of \<^verbatim>\<open>self.characters\<close>.
\<close>

definition wired :: "tts_tokenizer \<Rightarrow> bool" where
  "wired self \<longleftrightarrow>
     char_to_id (characters self) (pad (characters self)) = Inr (pad_id self) \<and>
     char_to_id (characters self) (blank (characters self)) = Inr (blank_id self) \<and>
     tokenizer self = RegexpTokenizer (join_escaped (vocab (characters self))) False \<and>
     not_found_tokenizer self =
       RegexpTokenizer (join_escaped (vocab (characters self))) True"

text \<open>
  No symbol of the vocabulary is the beginning of another one. A vocabulary of single
  characters is of this kind.
\<close>

definition prefix_free :: "symbol list \<Rightarrow> bool" where
  "prefix_free vs \<longleftrightarrow> (\<forall>u \<in> set vs. \<forall>v \<in> set vs. prefix u v \<longrightarrow> u = v)"

text \<open>
  The vocabulary of the spec's scenarios: a, b, c and the four reserved symbols.
\<close>

definition scenario_characters :: base_characters where
  "scenario_characters =
     \<lparr>vocab = [''a'', ''b'', ''c'', ''<PAD>'', ''<BLNK>'', ''<BOS>'', ''<EOS>''],
      pad = ''<PAD>'', blank = ''<BLNK>'', bos = ''<BOS>'', eos = ''<EOS>''\<rparr>"

definition scenario_tokenizer :: "bool \<Rightarrow> bool \<Rightarrow> tts_tokenizer" where
  "scenario_tokenizer blank_flag eos_bos_flag =
     \<lparr>text_cleaner = None, use_phonemes = False, add_blank = blank_flag,
      use_eos_bos = eos_bos_flag, characters = scenario_characters,
      pad_id = 3, blank_id = 4, not_found_characters = [], phonemizer = None,
      tokenizer = RegexpTokenizer (vocab scenario_characters) False,
      not_found_tokenizer = RegexpTokenizer (vocab scenario_characters) True\<rparr>"

text \<open>
  A vocabulary with a symbol of two characters, \<^verbatim>\<open>ab\<close>, listed after its first
  character.
\<close>

definition digraph_characters :: base_characters where
  "digraph_characters =
     \<lparr>vocab = [''a'', ''ab'', ''c'', ''<PAD>'', ''<BLNK>'', ''<BOS>'', ''<EOS>''],
      pad = ''<PAD>'', blank = ''<BLNK>'', bos = ''<BOS>'', eos = ''<EOS>''\<rparr>"

definition digraph_tokenizer :: tts_tokenizer where
  "digraph_tokenizer =
     \<lparr>text_cleaner = None, use_phonemes = False, add_blank = False,
      use_eos_bos = False, characters = digraph_characters,
      pad_id = 3, blank_id = 4, not_found_characters = [], phonemizer = None,
      tokenizer = RegexpTokenizer (vocab digraph_characters) False,
      not_found_tokenizer = RegexpTokenizer (vocab digraph_characters) True\<rparr>"

section \<open>Facts about the helpers\<close>

lemma py_len_py_list: "length (py_list seq) = py_len seq"
  by (cases seq) simp_all

lemma position_Some:
  "s \<in> set vs \<Longrightarrow> \<exists>i. position s vs = Some i \<and> i < length vs \<and> vs ! i = s"
  by (induction vs) auto

lemma position_None: "s \<notin> set vs \<Longrightarrow> position s vs = None"
  by (induction vs) auto

lemma char_to_id_roundtrip:
  assumes "s \<in> set (vocab cs)"
  shows "\<exists>i. char_to_id cs s = Inr i \<and> id_to_char cs i = Inr s"
proof -
  from assms obtain i where i: "position s (vocab cs) = Some i" "i < length (vocab cs)"
    "vocab cs ! i = s" using position_Some by blast
  then have "char_to_id cs s = Inr (int i)" "id_to_char cs (int i) = Inr s"
    by (simp_all add: char_to_id_def id_to_char_def)
  then show ?thesis by blast
qed

lemma char_to_id_fails: "s \<notin> set (vocab cs) \<Longrightarrow> char_to_id cs s = Inl UnknownSymbolError"
  by (simp add: char_to_id_def position_None)

lemma char_to_ids_roundtrip:
  "set toks \<subseteq> set (vocab cs) \<Longrightarrow>
     \<exists>ids. char_to_ids cs toks = Inr ids \<and> length ids = length toks \<and>
       (\<forall>acc. decode_from cs acc ids = Inr (acc @ concat toks))"
proof (induction toks)
  case Nil
  then show ?case by simp
next
  case (Cons t toks)
  then obtain ids where ids: "char_to_ids cs toks = Inr ids" "length ids = length toks"
    "\<forall>acc. decode_from cs acc ids = Inr (acc @ concat toks)" by auto
  from Cons.prems obtain i where i: "char_to_id cs t = Inr i" "id_to_char cs i = Inr t"
    using char_to_id_roundtrip [of t cs] by auto
  have "char_to_ids cs (t # toks) = Inr (i # ids)" using i ids by simp
  moreover have "\<forall>acc. decode_from cs acc (i # ids) = Inr (acc @ concat (t # toks))"
    using i ids by simp
  ultimately show ?case using ids(2) by simp
qed

subsection \<open>The slice assignment\<close>

lemma length_assign_every_other [simp]:
  "length (assign_every_other r i vs) = length r"
  by (induction vs arbitrary: r i) simp_all

lemma assign_every_other_nth:
  "i + 2 * length vs \<le> length r + 1 \<Longrightarrow> j < length r \<Longrightarrow>
   assign_every_other r i vs ! j =
     (if i \<le> j \<and> even (j - i) \<and> (j - i) div 2 < length vs then vs ! ((j - i) div 2)
      else r ! j)"
proof (induction vs arbitrary: r i)
  case Nil
  then show ?case by simp
next
  case (Cons v vs)
  have step: "assign_every_other (r[i := v]) (i + 2) vs ! j =
     (if i + 2 \<le> j \<and> even (j - (i + 2)) \<and> (j - (i + 2)) div 2 < length vs
      then vs ! ((j - (i + 2)) div 2) else r[i := v] ! j)"
    using Cons.prems by (intro Cons.IH) simp_all
  have i: "i < length r" using Cons.prems by simp
  consider "j < i" | "j = i" | "j = i + 1" | "i + 2 \<le> j" by linarith
  then show ?case
  proof cases
    case 1
    with step show ?thesis by simp
  next
    case 2
    with step i show ?thesis by simp
  next
    case 3
    with step show ?thesis by simp
  next
    case 4
    then obtain d where d: "j = i + 2 + d" using le_Suc_ex by blast
    have "(2 + d) div 2 = Suc (d div 2)" by simp
    with step d show ?thesis by simp
  qed
qed

lemma intersperse_explicit:
  "intersperse_blank_char self seq True =
     Inr (assign_every_other
            (replicate (py_len seq * 2 + 1) (blank (characters self))) 1 (py_list seq))"
  by (cases seq) (simp_all add: intersperse_blank_char_def set_slice_1_2_def Let_def)

subsection \<open>The matches of the vocabulary's pattern\<close>

lemma re_findall_subset: "set (re_findall vs adv text) \<subseteq> set vs"
proof (induction vs adv "text" rule: re_findall.induct)
  case (1 vs must_advance t)
  show ?case
  proof (cases "re_match vs must_advance t")
    case None
    with 1 show ?thesis
      by (cases t) (simp_all add: re_findall.simps [of vs must_advance])
  next
    case (Some v)
    with 1 re_match_Some [OF Some] show ?thesis
      by (simp add: re_findall.simps [of vs must_advance t])
  qed
qed

lemma re_match_prefix_free:
  assumes "prefix_free V" and "set vs \<subseteq> set V" and "s \<in> set vs" and "s \<noteq> []"
  shows "re_match vs adv (s @ rest) = Some s"
  using assms(2,3)
proof (induction vs)
  case Nil
  then show ?case by simp
next
  case (Cons v vs)
  show ?case
  proof (cases "prefix v (s @ rest) \<and> \<not> (adv \<and> v = [])")
    case True
    then have "prefix v s \<or> prefix s v"
      using prefix_same_cases [of v "s @ rest" s] by auto
    moreover have "v \<in> set V" "s \<in> set V" using Cons.prems by auto
    ultimately have "v = s" using assms(1) by (auto simp: prefix_free_def)
    with True show ?thesis by simp
  next
    case False
    with assms(4) have "v \<noteq> s" by auto
    with Cons.prems have "s \<in> set vs" by auto
    with Cons.prems have "re_match vs adv (s @ rest) = Some s" by (intro Cons.IH) auto
    moreover from False have "re_match (v # vs) adv (s @ rest) = re_match vs adv (s @ rest)"
      by auto
    ultimately show ?thesis by simp
  qed
qed

lemma re_match_empty_text: "[] \<notin> set vs \<Longrightarrow> re_match vs adv [] = None"
  by (induction vs) auto

lemma re_findall_prefix_free:
  assumes "prefix_free V" and "[] \<notin> set V" and "set ss \<subseteq> set V"
  shows "re_findall V False (concat ss) = ss"
  using assms(3)
proof (induction ss)
  case Nil
  with assms(2) show ?case
    by (simp add: re_findall.simps [of V False "[]"] re_match_empty_text)
next
  case (Cons s ss)
  then have s: "s \<in> set V" "s \<noteq> []" using assms(2) by auto
  have "re_match V False (s @ concat ss) = Some s"
    using assms(1) _ s by (rule re_match_prefix_free) simp
  with Cons s show ?case
    by (simp add: re_findall.simps [of V False "s @ concat ss"])
qed

lemma concat_findall_prefix_free:
  assumes "prefix_free V" and "set ss \<subseteq> set V"
  shows "concat (re_findall V False (concat ss)) = concat ss"
proof (cases "[] \<in> set V")
  case False
  with assms show ?thesis by (simp add: re_findall_prefix_free)
next
  case True
  have all: "\<forall>v \<in> set V. v = []"
  proof
    fix v assume "v \<in> set V"
    moreover have "prefix [] v" by simp
    ultimately have "[] = v" using True assms(1) unfolding prefix_free_def by blast
    then show "v = []" by simp
  qed
  with assms(2) have "concat ss = []" by auto
  moreover have "concat (re_findall V False (concat ss)) = []"
    using re_findall_subset [of V False "concat ss"] all by auto
  ultimately show ?thesis by (simp only:)
qed

subsection \<open>What a call does to the object\<close>

lemma log_appends:
  "\<exists>added. log_not_found_characters self nfs =
             self\<lparr>not_found_characters := not_found_characters self @ added\<rparr> \<and>
           distinct added \<and> set added = set nfs - set (not_found_characters self)"
proof (induction nfs arbitrary: self)
  case Nil
  have "log_not_found_characters self [] =
          self\<lparr>not_found_characters := not_found_characters self @ []\<rparr>"
    by (simp add: log_not_found_characters_def)
  then show ?case by (intro exI [of _ "[]"]) simp
next
  case (Cons x xs)
  show ?case
  proof (cases "x \<in> set (not_found_characters self)")
    case True
    then have "log_not_found_characters self (x # xs) = log_not_found_characters self xs"
      by (simp add: log_not_found_characters_def)
    moreover from True have "set (x # xs) - set (not_found_characters self)
        = set xs - set (not_found_characters self)" by auto
    ultimately show ?thesis using Cons.IH [of self] by simp
  next
    case False
    let ?s = "self\<lparr>not_found_characters := not_found_characters self @ [x]\<rparr>"
    from False have step:
      "log_not_found_characters self (x # xs) = log_not_found_characters ?s xs"
      by (simp add: log_not_found_characters_def)
    from Cons.IH [of ?s] obtain added where
      a: "log_not_found_characters ?s xs =
            ?s\<lparr>not_found_characters := not_found_characters ?s @ added\<rparr>"
      and d: "distinct added"
      and m: "set added = set xs - set (not_found_characters ?s)" by blast
    have "log_not_found_characters self (x # xs) =
            self\<lparr>not_found_characters := not_found_characters self @ (x # added)\<rparr>"
      using step a by simp
    moreover have "distinct (x # added)" using d m by simp
    moreover have "set (x # added) = set (x # xs) - set (not_found_characters self)"
      using m False by auto
    ultimately show ?thesis by blast
  qed
qed

lemma characters_log [simp]:
  "characters (log_not_found_characters self nfs) = characters self"
proof -
  from log_appends [of self nfs] obtain added where
    "log_not_found_characters self nfs =
       self\<lparr>not_found_characters := not_found_characters self @ added\<rparr>" by blast
  then show ?thesis by simp
qed

lemma encode_appends:
  "\<exists>added. snd (encode self t) =
             self\<lparr>not_found_characters := not_found_characters self @ added\<rparr> \<and>
           distinct added \<and> set added \<inter> set (not_found_characters self) = {}"
proof (cases t)
  case (Str s)
  from log_appends [of self "tokenize (not_found_tokenizer self) s"]
  obtain added where
    "log_not_found_characters self (tokenize (not_found_tokenizer self) s) =
       self\<lparr>not_found_characters := not_found_characters self @ added\<rparr>"
    "distinct added"
    "set added = set (tokenize (not_found_tokenizer self) s) - set (not_found_characters self)"
    by blast
  with Str show ?thesis by (intro exI [of _ added]) (auto simp: encode_def Let_def)
next
  case (Lst xs)
  then show ?thesis by (intro exI [of _ "[]"]) (simp add: encode_def)
qed

lemma text_to_ids_cases:
  "(\<exists>e. text_to_ids self text lang = (Inl e, self)) \<or>
   (\<exists>t. text_to_ids self text lang = encode self t)"
  by (auto simp: text_to_ids_def Let_def split: option.splits sum.splits)

lemma text_to_ids_appends:
  "\<exists>added. snd (text_to_ids self text lang) =
             self\<lparr>not_found_characters := not_found_characters self @ added\<rparr> \<and>
           distinct added \<and> set added \<inter> set (not_found_characters self) = {}"
proof -
  from text_to_ids_cases [of self "text" lang] show ?thesis
  proof
    assume "\<exists>e. text_to_ids self text lang = (Inl e, self)"
    then show ?thesis by (intro exI [of _ "[]"]) auto
  next
    assume "\<exists>t. text_to_ids self text lang = encode self t"
    then obtain t where "text_to_ids self text lang = encode self t" ..
    with encode_appends [of self t] show ?thesis by simp
  qed
qed





subsection \<open>Objects from the constructor\<close>

lemma wired_init: "TTSTokenizer up cl cs ph ab eb = Inr self \<Longrightarrow> wired self"
  by (auto simp: TTSTokenizer_def set_characters_def wired_def split: sum.splits)

lemma wired_set_characters: "set_characters self cs = Inr self' \<Longrightarrow> wired self'"
  by (auto simp: set_characters_def wired_def split: sum.splits)

lemma wired_log: "wired self \<Longrightarrow> wired (log_not_found_characters self nfs)"
proof -
  assume w: "wired self"
  from log_appends [of self nfs] obtain added where
    "log_not_found_characters self nfs =
       self\<lparr>not_found_characters := not_found_characters self @ added\<rparr>" by blast
  with w show ?thesis by (simp add: wired_def)
qed

lemma wired_encode: "wired self \<Longrightarrow> wired (snd (encode self t))"
proof -
  assume w: "wired self"
  from encode_appends [of self t] obtain added where
    "snd (encode self t) =
       self\<lparr>not_found_characters := not_found_characters self @ added\<rparr>" by blast
  with w show ?thesis by (simp add: wired_def)
qed

lemma wired_text_to_ids: "wired self \<Longrightarrow> wired (snd (text_to_ids self text lang))"
proof -
  assume w: "wired self"
  from text_to_ids_appends [of self "text" lang] obtain added where
    "snd (text_to_ids self text lang) =
       self\<lparr>not_found_characters := not_found_characters self @ added\<rparr>" by blast
  with w show ?thesis by (simp add: wired_def)
qed

lemma wired_vocab:
  "wired self \<Longrightarrow> join_escaped (vocab (characters self)) = vocab (characters self)"
  by (auto simp: wired_def join_escaped_def char_to_id_def)

lemma scenario_built:
  "TTSTokenizer False None scenario_characters None b e = Inr (scenario_tokenizer b e)"
  by (simp add: TTSTokenizer_def set_characters_def char_to_id_def scenario_characters_def
      scenario_tokenizer_def join_escaped_def)

lemma digraph_built:
  "TTSTokenizer False None digraph_characters None False False = Inr digraph_tokenizer"
  by (simp add: TTSTokenizer_def set_characters_def char_to_id_def digraph_characters_def
      digraph_tokenizer_def join_escaped_def)

lemma encode_str:
  assumes w: "wired self"
  shows "\<exists>ids nf. encode self (Str s) = (Inr ids, self\<lparr>not_found_characters := nf\<rparr>) \<and>
      (\<forall>acc. decode_from (characters self) acc ids
          = Inr (acc @ concat (re_findall (vocab (characters self)) False s)))"
proof -
  let ?V = "vocab (characters self)"
  have tok: "tokenize (tokenizer self) s = re_findall ?V False s"
    using w wired_vocab [OF w] by (simp add: wired_def tokenize_def RegexpTokenizer_def)
  have "set (re_findall ?V False s) \<subseteq> set ?V" by (rule re_findall_subset)
  from char_to_ids_roundtrip [OF this] obtain ids where
    ids: "char_to_ids (characters self) (re_findall ?V False s) = Inr ids"
     "\<forall>acc. decode_from (characters self) acc ids =
             Inr (acc @ concat (re_findall ?V False s))"
    by blast
  from log_appends [of self "tokenize (not_found_tokenizer self) s"] obtain added where
    "log_not_found_characters self (tokenize (not_found_tokenizer self) s) =
       self\<lparr>not_found_characters := not_found_characters self @ added\<rparr>" by blast
  with tok ids have "encode self (Str s) =
      (Inr ids, self\<lparr>not_found_characters := not_found_characters self @ added\<rparr>)"
    by (simp add: encode_def Let_def)
  with ids(2) show ?thesis by blast
qed

text \<open>
  On a string \<^const>\<open>encode\<close> never raises: every token is a symbol of the vocabulary.
\<close>

lemma encode_str_never_raises:
  "wired self \<Longrightarrow> \<exists>ids. fst (encode self (Str s)) = Inr ids"
  using encode_str [of self s] by auto

section \<open>The claims\<close>

subsection \<open>C4: interspersing the blank symbol\<close>

text \<open>
  C4. For every symbol sequence of length n, \<^verbatim>\<open>intersperse_blank_char\<close> called with
  \<^verbatim>\<open>use_blank_char=True\<close> returns, without raising, a sequence of length 2n+1 that
  holds the blank symbol at every even index and the original symbols, in order, at the
  odd indices. A string argument counts as the sequence of its characters. With the
  scenario vocabulary and \<^verbatim>\<open>add_blank=True\<close>, \<^verbatim>\<open>text_to_ids("abc")\<close> is the ids of
  blank, a, blank, b, blank, c, blank.
\<close>

theorem intersperse_blank_char_shape:
  "(\<exists>r. intersperse_blank_char self seq True = Inr r \<and>
        length r = 2 * py_len seq + 1 \<and>
        (\<forall>i. i \<le> py_len seq \<longrightarrow> r ! (2 * i) = blank (characters self)) \<and>
        (\<forall>i. i < py_len seq \<longrightarrow> r ! (2 * i + 1) = py_list seq ! i)) \<and>
   fst (text_to_ids (scenario_tokenizer True False) ''abc'' None) =
     char_to_ids scenario_characters
       [blank scenario_characters, ''a'', blank scenario_characters, ''b'',
        blank scenario_characters, ''c'', blank scenario_characters] \<and>
   fst (text_to_ids (scenario_tokenizer True False) ''abc'' None) = Inr [4, 0, 4, 1, 4, 2, 4]"
proof -
  define b where "b = blank (characters self)"
  define n where "n = py_len seq"
  define r0 where "r0 = replicate (n * 2 + 1) b"
  define r where "r = assign_every_other r0 1 (py_list seq)"
  have len: "length (py_list seq) = n" by (simp add: n_def py_len_py_list)
  have len0: "length r0 = 2 * n + 1" by (simp add: r0_def)
  have r0: "r0 ! j = b" if "j < 2 * n + 1" for j
    using that unfolding r0_def by (metis mult.commute nth_replicate)
  have nth: "r ! j = (if 1 \<le> j \<and> even (j - 1) \<and> (j - 1) div 2 < n
                      then py_list seq ! ((j - 1) div 2) else b)" if "j < 2 * n + 1" for j
    using assign_every_other_nth [of 1 "py_list seq" r0 j] that len len0 r0 [OF that]
    by (auto simp: r_def)
  have "intersperse_blank_char self seq True = Inr r"
    by (simp add: intersperse_explicit r_def r0_def n_def b_def)
  moreover have "length r = 2 * py_len seq + 1"
    by (simp add: r_def len0 n_def [symmetric])
  moreover have "r ! (2 * i) = blank (characters self)" if "i \<le> py_len seq" for i
    using nth [of "2 * i"] that by (cases i) (simp_all add: n_def b_def)
  moreover have "r ! (2 * i + 1) = py_list seq ! i" if "i < py_len seq" for i
    using nth [of "2 * i + 1"] that by (simp add: n_def)
  ultimately have shape: "\<exists>r. intersperse_blank_char self seq True = Inr r \<and>
        length r = 2 * py_len seq + 1 \<and>
        (\<forall>i. i \<le> py_len seq \<longrightarrow> r ! (2 * i) = blank (characters self)) \<and>
        (\<forall>i. i < py_len seq \<longrightarrow> r ! (2 * i + 1) = py_list seq ! i)"
    by blast
  have ids: "fst (text_to_ids (scenario_tokenizer True False) ''abc'' None) =
      Inr [4, 0, 4, 1, 4, 2, 4]"
    by code_simp
  have "char_to_ids scenario_characters
       [blank scenario_characters, ''a'', blank scenario_characters, ''b'',
        blank scenario_characters, ''c'', blank scenario_characters] =
      Inr [4, 0, 4, 1, 4, 2, 4]"
    by code_simp
  with shape ids show ?thesis by (simp only: simp_thms)
qed

theorem intersperse_blank_char_shape_witness:
  "intersperse_blank_char (scenario_tokenizer True False) (Lst [''a'', ''b'']) True =
     Inr [''<BLNK>'', ''a'', ''<BLNK>'', ''b'', ''<BLNK>''] \<and>
   intersperse_blank_char (scenario_tokenizer True False) (Str ''ab'') True =
     Inr [''<BLNK>'', ''a'', ''<BLNK>'', ''b'', ''<BLNK>''] \<and>
   fst (text_to_ids (scenario_tokenizer True False) ''abc'' None) = Inr [4, 0, 4, 1, 4, 2, 4]"
proof -
  have e: "intersperse_blank_char (scenario_tokenizer True False) (Lst [''a'', ''b'']) True =
     Inr [''<BLNK>'', ''a'', ''<BLNK>'', ''b'', ''<BLNK>''] \<and>
   intersperse_blank_char (scenario_tokenizer True False) (Str ''ab'') True =
     Inr [''<BLNK>'', ''a'', ''<BLNK>'', ''b'', ''<BLNK>'']"
    by code_simp
  from intersperse_blank_char_shape [of "scenario_tokenizer True False" "Lst [''a'', ''b'']"]
  have "fst (text_to_ids (scenario_tokenizer True False) ''abc'' None) =
      Inr [4, 0, 4, 1, 4, 2, 4]" by (elim conjE)
  with e show ?thesis by (simp only: simp_thms)
qed

subsection \<open>C5: padding with BOS and EOS\<close>

text \<open>
  C5. For every symbol sequence, \<^verbatim>\<open>pad_with_bos_eos\<close> returns a sequence that is two
  longer, starts with the bos symbol, ends with the eos symbol and holds the sequence
  unchanged in between (the slice \<^verbatim>\<open>[1:-1]\<close>). A string argument counts as the
  sequence of its characters.
\<close>

theorem pad_with_bos_eos_shape:
  "length (pad_with_bos_eos self seq) = py_len seq + 2 \<and>
   hd (pad_with_bos_eos self seq) = bos (characters self) \<and>
   last (pad_with_bos_eos self seq) = eos (characters self) \<and>
   butlast (tl (pad_with_bos_eos self seq)) = py_list seq"
  by (simp add: pad_with_bos_eos_def py_len_py_list butlast_append)

theorem pad_with_bos_eos_shape_witness:
  "pad_with_bos_eos (scenario_tokenizer False True) (Lst [''a'', ''b'']) =
     [''<BOS>'', ''a'', ''b'', ''<EOS>''] \<and>
   length (pad_with_bos_eos (scenario_tokenizer False True) (Lst [''a'', ''b''])) = 4 \<and>
   butlast (tl (pad_with_bos_eos (scenario_tokenizer False True) (Lst [''a'', ''b'']))) =
     [''a'', ''b'']"
proof -
  have e: "pad_with_bos_eos (scenario_tokenizer False True) (Lst [''a'', ''b'']) =
     [''<BOS>'', ''a'', ''b'', ''<EOS>'']"
    by code_simp
  from pad_with_bos_eos_shape [of "scenario_tokenizer False True" "Lst [''a'', ''b'']"]
  have "length (pad_with_bos_eos (scenario_tokenizer False True) (Lst [''a'', ''b''])) = 4"
    and "butlast (tl (pad_with_bos_eos (scenario_tokenizer False True) (Lst [''a'', ''b'']))) =
     [''a'', ''b'']"
    by simp_all
  with e show ?thesis by (simp only: simp_thms)
qed

subsection \<open>C6: the order of the pipeline\<close>

text \<open>
  C6. \<^verbatim>\<open>text_to_ids\<close> is the chain of the spec's states, each applied at most once
  and in this order: clean (if a cleaner is set), phonemize (if \<^verbatim>\<open>use_phonemes\<close>),
  intersperse blank (if \<^verbatim>\<open>add_blank\<close>), pad BOS/EOS (if \<^verbatim>\<open>use_eos_bos\<close>), and
  then always encode.
\<close>

theorem text_to_ids_is_pipeline:
  "text_to_ids self text lang = text_to_ids_pipeline self text lang"
  by (simp add: text_to_ids_def text_to_ids_pipeline_def clean_stage_def phonemize_stage_def
      blank_stage_def bos_eos_stage_def Let_def split: option.splits sum.splits)

text \<open>
  With both flags set the blanks are put in first and the result is padded afterwards:
  \<^verbatim>\<open>ab\<close> becomes bos, blank, a, blank, b, blank, eos.
\<close>

theorem text_to_ids_is_pipeline_witness:
  "fst (text_to_ids (scenario_tokenizer True True) ''ab'' None) = Inr [5, 4, 0, 4, 1, 4, 6] \<and>
   fst (text_to_ids_pipeline (scenario_tokenizer True True) ''ab'' None) =
     Inr [5, 4, 0, 4, 1, 4, 6]"
proof -
  have e: "fst (text_to_ids (scenario_tokenizer True True) ''ab'' None) =
      Inr [5, 4, 0, 4, 1, 4, 6]"
    by code_simp
  with text_to_ids_is_pipeline [of "scenario_tokenizer True True" "''ab''" None]
  show ?thesis by simp
qed

subsection \<open>C7: determinism\<close>



subsection \<open>C8: the list of characters not found only grows\<close>

text \<open>
  C8. \<^verbatim>\<open>log_not_found_characters\<close>, \<^verbatim>\<open>encode\<close> and \<^verbatim>\<open>text_to_ids\<close> change
  nothing of the object but \<^verbatim>\<open>not_found_characters\<close>, and that list only grows at
  its end: the entries it had stay where they were, and what is appended are symbols
  that were absent, each once. For \<^verbatim>\<open>log_not_found_characters\<close> the appended symbols
  are exactly the logged ones that were absent. The setter of \<^verbatim>\<open>characters\<close> leaves
  the list alone. The remaining methods (\<^verbatim>\<open>decode\<close>, \<^verbatim>\<open>ids_to_text\<close>,
  \<^verbatim>\<open>pad_with_bos_eos\<close>, \<^verbatim>\<open>intersperse_blank_char\<close>) assign nothing and return no
  object in this embedding.
\<close>

theorem not_found_characters_only_grows:
  "(\<exists>added. log_not_found_characters self nfs =
              self\<lparr>not_found_characters := not_found_characters self @ added\<rparr> \<and>
            distinct added \<and> set added = set nfs - set (not_found_characters self)) \<and>
   (\<exists>added. snd (encode self t) =
              self\<lparr>not_found_characters := not_found_characters self @ added\<rparr> \<and>
            distinct added \<and> set added \<inter> set (not_found_characters self) = {}) \<and>
   (\<exists>added. snd (text_to_ids self text lang) =
              self\<lparr>not_found_characters := not_found_characters self @ added\<rparr> \<and>
            distinct added \<and> set added \<inter> set (not_found_characters self) = {}) \<and>
   (\<forall>self'. set_characters self cs = Inr self' \<longrightarrow>
            not_found_characters self' = not_found_characters self)"
proof -
  have "\<forall>self'. set_characters self cs = Inr self' \<longrightarrow>
            not_found_characters self' = not_found_characters self"
    by (auto simp: set_characters_def split: sum.splits)
  with log_appends [of self nfs] encode_appends [of self t]
    text_to_ids_appends [of self "text" lang]
  show ?thesis by (simp only: simp_thms)
qed

text \<open>
  A first call logs \<^verbatim>\<open>zz\<close>; a second call, on a text with \<^verbatim>\<open>zz\<close> again and
  \<^verbatim>\<open>q\<close> twice, appends \<^verbatim>\<open>q\<close> once; setting the characters afterwards keeps both.
\<close>

theorem not_found_characters_only_grows_witness:
  "not_found_characters (snd (encode (scenario_tokenizer False False) (Str ''azzb''))) =
     [''zz''] \<and>
   not_found_characters
     (snd (text_to_ids (snd (encode (scenario_tokenizer False False) (Str ''azzb'')))
             ''qazzbq'' None)) = [''zz'', ''q''] \<and>
   (case set_characters
           (snd (text_to_ids (snd (encode (scenario_tokenizer False False) (Str ''azzb'')))
                   ''qazzbq'' None)) digraph_characters of
      Inl e \<Rightarrow> False
    | Inr self' \<Rightarrow> not_found_characters self' = [''zz'', ''q''])"
proof -
  let ?s1 = "snd (encode (scenario_tokenizer False False) (Str ''azzb''))"
  let ?s2 = "snd (text_to_ids ?s1 ''qazzbq'' None)"
  have e: "not_found_characters ?s1 = [''zz''] \<and> not_found_characters ?s2 = [''zz'', ''q'']"
    by code_simp
  have "\<exists>self'. set_characters ?s2 digraph_characters = Inr self'"
    by (simp add: set_characters_def char_to_id_def digraph_characters_def)
  then obtain self' where s: "set_characters ?s2 digraph_characters = Inr self'" ..
  with not_found_characters_only_grows [of ?s2 "[]" "Lst []" "[]" None digraph_characters]
  have "not_found_characters self' = not_found_characters ?s2" by blast
  with e s show ?thesis by simp
qed

subsection \<open>C10: a list argument is encoded without looking for unknown symbols\<close>

text \<open>
  The comprehension of \<^const>\<open>encode\<close>, element by element: it returns ids exactly
  when \<^const>\<open>char_to_id\<close> returns one for every element, and these are the ids, in
  order; it raises exactly what \<^const>\<open>char_to_id\<close> raises on the first element it
  has no id for.
\<close>

lemma char_to_ids_Inr_iff:
  "char_to_ids cs xs = Inr ids \<longleftrightarrow>
     length ids = length xs \<and> (\<forall>i < length xs. char_to_id cs (xs ! i) = Inr (ids ! i))"
proof (induction xs arbitrary: ids)
  case Nil
  then show ?case by auto
next
  case (Cons x xs)
  show ?case
  proof (cases ids)
    case Nil
    then show ?thesis by (auto split: sum.splits)
  next
    case (Cons k ks)
    have "(\<forall>i < Suc (length xs). char_to_id cs ((x # xs) ! i) = Inr ((k # ks) ! i)) \<longleftrightarrow>
          char_to_id cs x = Inr k \<and> (\<forall>i < length xs. char_to_id cs (xs ! i) = Inr (ks ! i))"
      by (auto simp: less_Suc_eq_0_disj)
    with Cons Cons.IH [of ks] show ?thesis by (auto split: sum.splits)
  qed
qed

lemma char_to_ids_Inl_iff:
  "char_to_ids cs xs = Inl e \<longleftrightarrow>
     (\<exists>i < length xs. char_to_id cs (xs ! i) = Inl e \<and>
         (\<forall>j < i. \<exists>k. char_to_id cs (xs ! j) = Inr k))"
proof (induction xs)
  case Nil
  then show ?case by simp
next
  case (Cons x xs)
  show ?case
  proof (cases "char_to_id cs x")
    case (Inl e')
    show ?thesis
    proof
      assume "char_to_ids cs (x # xs) = Inl e"
      with Inl have "e' = e" by simp
      with Inl have "char_to_id cs ((x # xs) ! 0) = Inl e \<and>
          (\<forall>j < 0. \<exists>k. char_to_id cs ((x # xs) ! j) = Inr k)" by simp
      then show "\<exists>i < length (x # xs). char_to_id cs ((x # xs) ! i) = Inl e \<and>
         (\<forall>j < i. \<exists>k. char_to_id cs ((x # xs) ! j) = Inr k)" by auto
    next
      assume "\<exists>i < length (x # xs). char_to_id cs ((x # xs) ! i) = Inl e \<and>
         (\<forall>j < i. \<exists>k. char_to_id cs ((x # xs) ! j) = Inr k)"
      then obtain i where i: "char_to_id cs ((x # xs) ! i) = Inl e"
        "\<forall>j < i. \<exists>k. char_to_id cs ((x # xs) ! j) = Inr k" by blast
      have "i = 0"
      proof (rule ccontr)
        assume "i \<noteq> 0"
        with i(2) have "\<exists>k. char_to_id cs ((x # xs) ! 0) = Inr k" by blast
        with Inl show False by simp
      qed
      with i(1) Inl show "char_to_ids cs (x # xs) = Inl e" by simp
    qed
  next
    case (Inr k)
    have "(\<exists>i < length (x # xs). char_to_id cs ((x # xs) ! i) = Inl e \<and>
             (\<forall>j < i. \<exists>k. char_to_id cs ((x # xs) ! j) = Inr k)) \<longleftrightarrow>
          (\<exists>i < length xs. char_to_id cs (xs ! i) = Inl e \<and>
             (\<forall>j < i. \<exists>k. char_to_id cs (xs ! j) = Inr k))"
      (is "?L \<longleftrightarrow> ?R")
    proof
      assume ?L
      then obtain i where i: "i < length (x # xs)" "char_to_id cs ((x # xs) ! i) = Inl e"
        "\<forall>j < i. \<exists>k. char_to_id cs ((x # xs) ! j) = Inr k" by blast
      with Inr obtain i' where i': "i = Suc i'" by (cases i) auto
      have "\<forall>j < i'. \<exists>k. char_to_id cs (xs ! j) = Inr k"
      proof (intro allI impI)
        fix j assume "j < i'"
        then have "Suc j < i" using i' by simp
        with i(3) have "\<exists>k. char_to_id cs ((x # xs) ! Suc j) = Inr k" by blast
        then show "\<exists>k. char_to_id cs (xs ! j) = Inr k" by simp
      qed
      with i i' show ?R by auto
    next
      assume ?R
      then obtain i where i: "i < length xs" "char_to_id cs (xs ! i) = Inl e"
        "\<forall>j < i. \<exists>k. char_to_id cs (xs ! j) = Inr k" by blast
      have "\<forall>j < Suc i. \<exists>k. char_to_id cs ((x # xs) ! j) = Inr k"
      proof (intro allI impI)
        fix j assume "j < Suc i"
        then show "\<exists>k. char_to_id cs ((x # xs) ! j) = Inr k"
          using Inr i(3) by (cases j) auto
      qed
      with i have "Suc i < length (x # xs) \<and> char_to_id cs ((x # xs) ! Suc i) = Inl e \<and>
          (\<forall>j < Suc i. \<exists>k. char_to_id cs ((x # xs) ! j) = Inr k)" by simp
      then show ?L by blast
    qed
    with Inr Cons.IH show ?thesis by (auto split: sum.splits)
  qed
qed

text \<open>
  The list that \<^verbatim>\<open>intersperse_blank_char\<close> returns, written out.
\<close>

lemma assign_every_other_replicate:
  "assign_every_other (pre @ replicate (2 * length vs + 1) b) (length pre + 1) vs =
     pre @ b # concat (map (\<lambda>v. [v, b]) vs)"
proof (induction vs arbitrary: pre)
  case Nil
  then show ?case by simp
next
  case (Cons v vs)
  have "(pre @ replicate (2 * length (v # vs) + 1) b)[length pre + 1 := v] =
          (pre @ [b, v]) @ replicate (2 * length vs + 1) b"
    by (simp add: list_update_append)
  moreover have "length pre + 1 + 2 = length (pre @ [b, v]) + 1" by simp
  ultimately have "assign_every_other (pre @ replicate (2 * length (v # vs) + 1) b)
        (length pre + 1) (v # vs) =
      assign_every_other ((pre @ [b, v]) @ replicate (2 * length vs + 1) b)
        (length (pre @ [b, v]) + 1) vs"
    by (simp only: assign_every_other.simps)
  also have "\<dots> = (pre @ [b, v]) @ b # concat (map (\<lambda>v. [v, b]) vs)"
    by (rule Cons.IH)
  finally show ?case by simp
qed

lemma intersperse_blank_char_list:
  "intersperse_blank_char self seq True =
     Inr (blank (characters self) # concat (map (\<lambda>v. [v, blank (characters self)]) (py_list seq)))"
proof -
  have "assign_every_other
          (replicate (py_len seq * 2 + 1) (blank (characters self))) 1 (py_list seq) =
        blank (characters self) #
          concat (map (\<lambda>v. [v, blank (characters self)]) (py_list seq))"
    using assign_every_other_replicate [of "[]" "py_list seq" "blank (characters self)"]
    by (simp add: py_len_py_list mult.commute)
  then show ?thesis by (simp only: intersperse_explicit)
qed

text \<open>
  C10. Called with a list, \<^verbatim>\<open>encode\<close> leaves the object as it is and looks up every
  element with \<^verbatim>\<open>char_to_id\<close>, unfiltered: it returns ids exactly when every
  element has one, namely these ids in order, and it raises exactly what
  \<^verbatim>\<open>char_to_id\<close> raises on the first element without an id. With \<^verbatim>\<open>add_blank\<close>
  or \<^verbatim>\<open>use_eos_bos\<close> set, \<^verbatim>\<open>text_to_ids\<close> leaves the object, and so
  \<^verbatim>\<open>not_found_characters\<close>, as it is; where the cleaned and phonemized text is
  \<open>t\<close>, the call is \<^verbatim>\<open>encode\<close> on this list: the characters of \<open>t\<close>, with the
  blank symbol before, between and after them if \<^verbatim>\<open>add_blank\<close>, and then bos in
  front and eos behind if \<^verbatim>\<open>use_eos_bos\<close>. Where the phonemizer is missing, the
  call has raised before.
\<close>

theorem encode_list_skips_detection:
  "snd (encode self (Lst xs)) = self \<and>
   (\<forall>ids. fst (encode self (Lst xs)) = Inr ids \<longleftrightarrow>
      length ids = length xs \<and>
      (\<forall>i < length xs. char_to_id (characters self) (xs ! i) = Inr (ids ! i))) \<and>
   (\<forall>e. fst (encode self (Lst xs)) = Inl e \<longleftrightarrow>
      (\<exists>i < length xs. char_to_id (characters self) (xs ! i) = Inl e \<and>
          (\<forall>j < i. \<exists>k. char_to_id (characters self) (xs ! j) = Inr k))) \<and>
   (add_blank self \<or> use_eos_bos self \<longrightarrow>
      snd (text_to_ids self text lang) = self \<and>
      (\<forall>e. phonemize_stage self (clean_stage self text) = Inl e \<longrightarrow>
           text_to_ids self text lang = (Inl e, self)) \<and>
      (\<forall>t. phonemize_stage self (clean_stage self text) = Inr t \<longrightarrow>
           text_to_ids self text lang =
             encode self
               (Lst (if use_eos_bos self
                     then [bos (characters self)] @
                          (if add_blank self
                           then blank (characters self) #
                                concat (map (\<lambda>c. [[c], blank (characters self)]) t)
                           else map (\<lambda>c. [c]) t) @
                          [eos (characters self)]
                     else blank (characters self) #
                          concat (map (\<lambda>c. [[c], blank (characters self)]) t)))))"
proof -
  have enc: "encode self (Lst ys) = (char_to_ids (characters self) ys, self)" for ys
    by (simp add: encode_def)
  have named: "text_to_ids self text lang =
             encode self
               (Lst (if use_eos_bos self
                     then [bos (characters self)] @
                          (if add_blank self
                           then blank (characters self) #
                                concat (map (\<lambda>c. [[c], blank (characters self)]) t)
                           else map (\<lambda>c. [c]) t) @
                          [eos (characters self)]
                     else blank (characters self) #
                          concat (map (\<lambda>c. [[c], blank (characters self)]) t)))"
    if "add_blank self \<or> use_eos_bos self"
      and "phonemize_stage self (clean_stage self text) = Inr t" for t
    using that
    by (auto simp: text_to_ids_def Let_def phonemize_stage_def clean_stage_def
        intersperse_blank_char_list pad_with_bos_eos_def comp_def
        split: option.splits if_splits)
  have raised: "text_to_ids self text lang = (Inl e, self)"
    if "phonemize_stage self (clean_stage self text) = Inl e" for e
    using that
    by (auto simp: text_to_ids_def Let_def phonemize_stage_def clean_stage_def
        split: option.splits if_splits)
  have same: "snd (text_to_ids self text lang) = self" if "add_blank self \<or> use_eos_bos self"
  proof (cases "phonemize_stage self (clean_stage self text)")
    case (Inl e)
    with raised show ?thesis by simp
  next
    case (Inr t)
    with named [OF that] enc show ?thesis by simp
  qed
  from enc char_to_ids_Inr_iff [of "characters self" xs]
    char_to_ids_Inl_iff [of "characters self" xs] named raised same
  show ?thesis by (simp only: fst_conv snd_conv) blast
qed

text \<open>
  Both paths at the scenario vocabulary. With \<^verbatim>\<open>add_blank\<close>, \<^verbatim>\<open>ab\<close> is encoded
  as the list blank, a, blank, b, blank, each element by its own id; with
  \<^verbatim>\<open>use_eos_bos\<close>, \<^verbatim>\<open>ca\<close> as bos, c, a, eos. On \<^verbatim>\<open>az\<close> the lookup of
  \<^verbatim>\<open>z\<close> raises, after blank, a and blank have got their ids, and nothing is logged.
\<close>

theorem encode_list_skips_detection_witness:
  "(add_blank (scenario_tokenizer True False) \<or> use_eos_bos (scenario_tokenizer True False)) \<and>
   phonemize_stage (scenario_tokenizer True False) (clean_stage (scenario_tokenizer True False) ''ab'')
     = Inr ''ab'' \<and>
   text_to_ids (scenario_tokenizer True False) ''ab'' None =
     encode (scenario_tokenizer True False)
       (Lst [''<BLNK>'', ''a'', ''<BLNK>'', ''b'', ''<BLNK>'']) \<and>
   fst (text_to_ids (scenario_tokenizer True False) ''ab'' None) = Inr [4, 0, 4, 1, 4] \<and>
   char_to_id scenario_characters ''<BLNK>'' = Inr 4 \<and>
   char_to_id scenario_characters ''a'' = Inr 0 \<and>
   char_to_id scenario_characters ''b'' = Inr 1 \<and>
   snd (text_to_ids (scenario_tokenizer True False) ''ab'' None) = scenario_tokenizer True False \<and>
   text_to_ids (scenario_tokenizer False True) ''ca'' None =
     encode (scenario_tokenizer False True) (Lst [''<BOS>'', ''c'', ''a'', ''<EOS>'']) \<and>
   fst (text_to_ids (scenario_tokenizer False True) ''ca'' None) = Inr [5, 2, 0, 6] \<and>
   fst (text_to_ids (scenario_tokenizer True False) ''az'' None) = Inl UnknownSymbolError \<and>
   char_to_id scenario_characters ''z'' = Inl UnknownSymbolError \<and>
   not_found_characters (snd (text_to_ids (scenario_tokenizer True False) ''az'' None)) = []"
proof -
  let ?b = "scenario_tokenizer True False" and ?p = "scenario_tokenizer False True"
  have fb: "add_blank ?b" "\<not> use_eos_bos ?b" and fp: "use_eos_bos ?p" "\<not> add_blank ?p"
    by (simp_all add: scenario_tokenizer_def)
  have pb: "phonemize_stage ?b (clean_stage ?b ''ab'') = Inr ''ab''"
    and pz: "phonemize_stage ?b (clean_stage ?b ''az'') = Inr ''az''"
    and pp: "phonemize_stage ?p (clean_stage ?p ''ca'') = Inr ''ca''"
    by (simp_all add: phonemize_stage_def clean_stage_def scenario_tokenizer_def)
  have cs: "blank (characters ?b) = ''<BLNK>''" "bos (characters ?p) = ''<BOS>''"
    "eos (characters ?p) = ''<EOS>''"
    by (simp_all add: scenario_tokenizer_def scenario_characters_def)
  from encode_list_skips_detection [of ?b "[]" "''ab''" None] fb
  have 2: "snd (text_to_ids ?b ''ab'' None) = ?b" by blast
  from encode_list_skips_detection [of ?b "[]" "''ab''" None] fb pb
  have 1: "text_to_ids ?b ''ab'' None =
      encode ?b (Lst [''<BLNK>'', ''a'', ''<BLNK>'', ''b'', ''<BLNK>''])"
    by (simp add: cs)
  from encode_list_skips_detection [of ?p "[]" "''ca''" None] fp pp
  have 3: "text_to_ids ?p ''ca'' None = encode ?p (Lst [''<BOS>'', ''c'', ''a'', ''<EOS>''])"
    by (simp add: cs)
  from encode_list_skips_detection [of ?b "[]" "''az''" None] fb
  have "snd (text_to_ids ?b ''az'' None) = ?b" by blast
  then have 4: "not_found_characters (snd (text_to_ids ?b ''az'' None)) = []"
    by (simp add: scenario_tokenizer_def)
  have e: "fst (text_to_ids ?b ''ab'' None) = Inr [4, 0, 4, 1, 4] \<and>
      char_to_id scenario_characters ''<BLNK>'' = Inr 4 \<and>
      char_to_id scenario_characters ''a'' = Inr 0 \<and>
      char_to_id scenario_characters ''b'' = Inr 1 \<and>
      fst (text_to_ids ?p ''ca'' None) = Inr [5, 2, 0, 6] \<and>
      fst (text_to_ids ?b ''az'' None) = Inl UnknownSymbolError \<and>
      char_to_id scenario_characters ''z'' = Inl UnknownSymbolError"
    by code_simp
  from fb(1) pb 1 2 3 4 e show ?thesis by (simp only: simp_thms)
qed

subsection \<open>C9: the Korean backend is always available\<close>

text \<open>
  C9, as stated, asks \<^verbatim>\<open>is_available\<close> to return false when the external resources
  are missing. \<^verbatim>\<open>KO_KR_Phonemizer.is_available\<close> checks nothing: also with the
  resources missing it returns true.
\<close>

theorem is_available_counterexample:
  "is_available (KO_KR_Phonemizer (\<lambda>t sep. t) ''.,?!'' True) Resources_missing = Inr True \<and>
   is_available (KO_KR_Phonemizer (\<lambda>t sep. t) ''.,?!'' True) Resources_missing \<noteq> Inr False"
  by (simp add: KO_KR_Phonemizer_def KO_KR_Phonemizer_is_available_def)

text \<open>
  C9, amended. For every state of the external resources,
  \<^verbatim>\<open>KO_KR_Phonemizer.is_available()\<close> returns without raising, and what it returns is
  the boolean true, also when the resources are missing.
\<close>

theorem is_available_returns_true:
  "is_available (KO_KR_Phonemizer korean_text_to_phonemes puncs keep) resources = Inr True \<and>
   KO_KR_Phonemizer_is_available resources = Inr True"
  by (simp add: KO_KR_Phonemizer_def KO_KR_Phonemizer_is_available_def)

theorem is_available_returns_true_witness:
  "is_available (KO_KR_Phonemizer (\<lambda>t sep. t) ''.,?!'' True) Resources_present = Inr True \<and>
   KO_KR_Phonemizer_is_available Resources_present = Inr True"
  using is_available_returns_true [of "\<lambda>t sep. t" "''.,?!''" True Resources_present]
  by simp

subsection \<open>C1: encoding and decoding a text of vocabulary symbols\<close>

text \<open>
  C1, as stated, fails where one symbol of the vocabulary begins another one. With
  \<^verbatim>\<open>a\<close> listed before \<^verbatim>\<open>ab\<close>, the text \<^verbatim>\<open>abc\<close> is made of the symbols
  \<^verbatim>\<open>ab\<close> and \<^verbatim>\<open>c\<close>, but the pattern matches \<^verbatim>\<open>a\<close> first, finds no symbol at
  \<^verbatim>\<open>b\<close> and drops it: the ids decode to \<^verbatim>\<open>ac\<close>.
\<close>

theorem encode_decode_roundtrip_counterexample:
  "TTSTokenizer False None digraph_characters None False False = Inr digraph_tokenizer \<and>
   concat [''ab'', ''c''] = ''abc'' \<and>
   set [''ab'', ''c''] \<subseteq> set (vocab (characters digraph_tokenizer)) \<and>
   fst (encode digraph_tokenizer (Str ''abc'')) = Inr [0, 2] \<and>
   ids_to_text (snd (encode digraph_tokenizer (Str ''abc''))) [0, 2] = Inr ''ac'' \<and>
   ids_to_text (snd (encode digraph_tokenizer (Str ''abc''))) [0, 2] \<noteq> Inr ''abc''"
proof -
  have "concat [''ab'', ''c''] = ''abc'' \<and>
   set [''ab'', ''c''] \<subseteq> set (vocab (characters digraph_tokenizer)) \<and>
   fst (encode digraph_tokenizer (Str ''abc'')) = Inr [0, 2] \<and>
   ids_to_text (snd (encode digraph_tokenizer (Str ''abc''))) [0, 2] = Inr ''ac''"
    by code_simp
  with digraph_built show ?thesis by simp
qed

text \<open>
  C1, amended. Let no symbol of the vocabulary be the beginning of another one (as in a
  vocabulary of single characters). Then for every text that is a concatenation of
  vocabulary symbols, and every tokenizer as the constructor builds it,
  \<^verbatim>\<open>encode\<close> returns ids and \<^verbatim>\<open>ids_to_text\<close> of them is the text.
\<close>

theorem encode_decode_roundtrip:
  assumes "wired self"
    and "prefix_free (vocab (characters self))"
    and "set ss \<subseteq> set (vocab (characters self))"
  shows "\<exists>ids self'. encode self (Str (concat ss)) = (Inr ids, self') \<and>
            ids_to_text self' ids = Inr (concat ss)"
proof -
  from encode_str [OF assms(1), of "concat ss"] obtain ids nf where
    e: "encode self (Str (concat ss)) = (Inr ids, self\<lparr>not_found_characters := nf\<rparr>)"
    and d: "\<forall>acc. decode_from (characters self) acc ids
          = Inr (acc @ concat (re_findall (vocab (characters self)) False (concat ss)))"
    by blast
  have "ids_to_text (self\<lparr>not_found_characters := nf\<rparr>) ids = Inr (concat ss)"
    using d concat_findall_prefix_free [OF assms(2,3)]
    by (simp add: ids_to_text_def decode_def)
  with e show ?thesis by blast
qed

theorem encode_decode_roundtrip_witness:
  "wired (scenario_tokenizer False False) \<and>
   prefix_free (vocab (characters (scenario_tokenizer False False))) \<and>
   set [''c'', ''<BOS>'', ''a'', ''b''] \<subseteq> set (vocab (characters (scenario_tokenizer False False))) \<and>
   fst (encode (scenario_tokenizer False False) (Str ''c<BOS>ab'')) = Inr [2, 5, 0, 1] \<and>
   (\<exists>ids self'. encode (scenario_tokenizer False False) (Str ''c<BOS>ab'') = (Inr ids, self') \<and>
       ids_to_text self' ids = Inr ''c<BOS>ab'')"
proof -
  have w: "wired (scenario_tokenizer False False)"
    using scenario_built by (rule wired_init)
  have p: "prefix_free (vocab (characters (scenario_tokenizer False False)))"
    by code_simp
  have s: "set [''c'', ''<BOS>'', ''a'', ''b'']
             \<subseteq> set (vocab (characters (scenario_tokenizer False False)))"
    by code_simp
  have e: "fst (encode (scenario_tokenizer False False) (Str ''c<BOS>ab'')) = Inr [2, 5, 0, 1]"
    by code_simp
  from encode_decode_roundtrip [OF w p s] w p s e show ?thesis by simp
qed

text \<open>
  The same holds, whatever the vocabulary, for a text all of whose characters are
  vocabulary symbols themselves: at every position a symbol matches.
\<close>

lemma re_match_single:
  "[c] \<in> set vs \<Longrightarrow> \<exists>v. re_match vs adv (c # rest) = Some v \<and> (adv \<longrightarrow> v \<noteq> [])"
  by (induction vs) auto

lemma concat_findall_chars:
  "\<forall>c \<in> set s. [c] \<in> set vs \<Longrightarrow> concat (re_findall vs adv s) = s"
proof (induction vs adv s rule: re_findall.induct)
  case (1 vs must_advance t)
  show ?case
  proof (cases "re_match vs must_advance t")
    case None
    show ?thesis
    proof (cases t)
      case Nil
      with None show ?thesis by (simp add: re_findall.simps [of vs must_advance "[]"])
    next
      case (Cons a rest)
      with 1(3) have "[a] \<in> set vs" by simp
      from re_match_single [OF this, of must_advance rest] None Cons
      show ?thesis by simp
    qed
  next
    case (Some v)
    from re_match_Some [OF Some] obtain rest where t: "t = v @ rest"
      by (auto elim: prefixE)
    with 1(3) have "\<forall>c \<in> set (drop (length v) t). [c] \<in> set vs" by simp
    with 1(2) [OF Some] have "concat (re_findall vs (v = []) (drop (length v) t)) =
        drop (length v) t" by simp
    with Some t show ?thesis
      by (simp add: re_findall.simps [of vs must_advance "v @ rest"])
  qed
qed

lemma roundtrip_of_known_characters:
  assumes "wired self" and "\<forall>c \<in> set s. [c] \<in> set (vocab (characters self))"
  shows "\<exists>ids self'. encode self (Str s) = (Inr ids, self') \<and> ids_to_text self' ids = Inr s"
proof -
  from encode_str [OF assms(1), of s] obtain ids nf where
    e: "encode self (Str s) = (Inr ids, self\<lparr>not_found_characters := nf\<rparr>)"
    and d: "\<forall>acc. decode_from (characters self) acc ids
          = Inr (acc @ concat (re_findall (vocab (characters self)) False s))"
    by blast
  have "ids_to_text (self\<lparr>not_found_characters := nf\<rparr>) ids = Inr s"
    using d concat_findall_chars [OF assms(2)]
    by (simp add: ids_to_text_def decode_def)
  with e show ?thesis by blast
qed

subsection \<open>C2: the last step of the pipeline can raise\<close>

text \<open>
  C2 does not hold of the code. With \<^verbatim>\<open>add_blank\<close> or \<^verbatim>\<open>use_eos_bos\<close> set, the
  text reaches \<^verbatim>\<open>encode\<close> as a list, whose elements are looked up unfiltered: on the
  text \<^verbatim>\<open>z\<close>, which is not in the scenario vocabulary, \<^verbatim>\<open>char_to_id\<close> raises.
  With neither flag set the same text is encoded to no ids and \<^verbatim>\<open>z\<close> is logged.
\<close>

theorem text_to_ids_raises_on_unknown_symbol:
  "TTSTokenizer False None scenario_characters None True False =
     Inr (scenario_tokenizer True False) \<and>
   TTSTokenizer False None scenario_characters None False True =
     Inr (scenario_tokenizer False True) \<and>
   fst (text_to_ids (scenario_tokenizer True False) ''z'' None) = Inl UnknownSymbolError \<and>
   fst (text_to_ids (scenario_tokenizer False True) ''z'' None) = Inl UnknownSymbolError \<and>
   fst (text_to_ids (scenario_tokenizer False False) ''z'' None) = Inr [] \<and>
   not_found_characters (snd (text_to_ids (scenario_tokenizer False False) ''z'' None)) =
     [''z'']"
proof -
  have "fst (text_to_ids (scenario_tokenizer True False) ''z'' None) = Inl UnknownSymbolError \<and>
   fst (text_to_ids (scenario_tokenizer False True) ''z'' None) = Inl UnknownSymbolError \<and>
   fst (text_to_ids (scenario_tokenizer False False) ''z'' None) = Inr [] \<and>
   not_found_characters (snd (text_to_ids (scenario_tokenizer False False) ''z'' None)) =
     [''z'']"
    by code_simp
  with scenario_built show ?thesis by simp
qed

subsection \<open>C3: what is logged for unknown characters\<close>

text \<open>
  C3 does not hold of the code where unknown characters stand next to each other. The
  tokenizer for what is not found returns the segments between two matches, so in
  \<^verbatim>\<open>azzb\<close> the two \<^verbatim>\<open>z\<close> are logged as the one entry \<^verbatim>\<open>zz\<close>, and the
  character \<^verbatim>\<open>z\<close> is not in \<^verbatim>\<open>not_found_characters\<close> at all. Apart from each
  other, as in \<^verbatim>\<open>zaz\<close>, they are logged as \<^verbatim>\<open>z\<close>, once.
\<close>

theorem encode_logs_segments:
  "TTSTokenizer False None scenario_characters None False False =
     Inr (scenario_tokenizer False False) \<and>
   fst (encode (scenario_tokenizer False False) (Str ''azzb'')) = Inr [0, 1] \<and>
   not_found_characters (snd (encode (scenario_tokenizer False False) (Str ''azzb''))) =
     [''zz''] \<and>
   count_list
     (not_found_characters (snd (encode (scenario_tokenizer False False) (Str ''azzb''))))
     ''z'' = 0 \<and>
   fst (encode (scenario_tokenizer False False) (Str ''zaz'')) = Inr [0] \<and>
   not_found_characters (snd (encode (scenario_tokenizer False False) (Str ''zaz''))) =
     [''z'']"
proof -
  have "fst (encode (scenario_tokenizer False False) (Str ''azzb'')) = Inr [0, 1] \<and>
   not_found_characters (snd (encode (scenario_tokenizer False False) (Str ''azzb''))) =
     [''zz''] \<and>
   count_list
     (not_found_characters (snd (encode (scenario_tokenizer False False) (Str ''azzb''))))
     ''z'' = 0 \<and>
   fst (encode (scenario_tokenizer False False) (Str ''zaz'')) = Inr [0] \<and>
   not_found_characters (snd (encode (scenario_tokenizer False False) (Str ''zaz''))) =
     [''z'']"
    by code_simp
  with scenario_built show ?thesis by simp
qed

text \<open>
  What \<^const>\<open>encode\<close> does log for a string: the non-empty segments between the
  matches, each once, whatever their length.
\<close>

lemma encode_logs_each_segment:
  assumes "distinct (not_found_characters self)"
  shows "distinct (not_found_characters (snd (encode self (Str s)))) \<and>
         set (not_found_characters (snd (encode self (Str s)))) =
           set (not_found_characters self) \<union> set (tokenize (not_found_tokenizer self) s)"
proof -
  from log_appends [of self "tokenize (not_found_tokenizer self) s"] obtain added where
    a: "log_not_found_characters self (tokenize (not_found_tokenizer self) s) =
       self\<lparr>not_found_characters := not_found_characters self @ added\<rparr>"
    and d: "distinct added"
    and m: "set added =
        set (tokenize (not_found_tokenizer self) s) - set (not_found_characters self)"
    by blast
  from a have "not_found_characters (snd (encode self (Str s))) =
      not_found_characters self @ added"
    by (simp add: encode_def Let_def)
  with assms d m show ?thesis by auto
qed


end
